theory Spec2Isabelle
  imports Main
begin

section \<open>Strings of the host language\<close>

text \<open>
  Strings are lists of \<^typ>\<open>char\<close>, read as code units in the range 0 to 255 (ASCII and
  Latin-1). On that range the two string built-ins the transform calls are modelled
  exactly: \<open>trim\<close> strips the white space and line terminators TAB, LF, VT, FF, CR,
  SPACE and NBSP from both ends, and \<open>toLowerCase\<close> maps A to Z and the accented
  capitals 192 to 222 (the multiplication sign 215 apart) to the letter 32 places up.
\<close>

definition is_space :: "char \<Rightarrow> bool" where
  "is_space c = ((of_char c :: nat) \<in> {9, 10, 11, 12, 13, 32, 160})"

definition trim :: "string \<Rightarrow> string" where
  "trim s = rev (dropWhile is_space (rev (dropWhile is_space s)))"

definition lower_char :: "char \<Rightarrow> char" where
  "lower_char c =
     (let n = (of_char c :: nat)
      in if (65 \<le> n \<and> n \<le> 90) \<or> (192 \<le> n \<and> n \<le> 222 \<and> n \<noteq> 215)
         then char_of (n + 32) else c)"

definition toLowerCase :: "string \<Rightarrow> string" where
  "toLowerCase s = map lower_char s"

text \<open>Decimal rendering of a non-negative integer, as a template literal prints it.\<close>

definition digit_char :: "nat \<Rightarrow> char" where
  "digit_char d = ''0123456789'' ! d"

fun number_string :: "nat \<Rightarrow> string" where
  "number_string n =
     (if n < 10 then [digit_char n]
      else number_string (n div 10) @ [digit_char (n mod 10)])"

section \<open>The parsed document tree\<close>

text \<open>
  The tree the external parser hands over. An element has a tag name, its attributes
  (a \<open>NamedNodeMap\<close>: at most one value per name) and its child nodes in document
  order. Text nodes (CDATA sections included) carry character data; comments and
  processing instructions are the remaining node kind. Only elements have a tag name.
  A document holds its top-level nodes.
\<close>

type_synonym NamedNodeMap = "string \<rightharpoonup> string"

datatype node =
    Element string NamedNodeMap "node list"
  | Text string
  | Comment string

datatype document = Document "node list"

fun is_element :: "node \<Rightarrow> bool" where
  "is_element (Element t a cs) = True"
| "is_element (Text d) = False"
| "is_element (Comment d) = False"

text \<open>
  \<open>textContent\<close> of an element: the character data of all its text descendants in
  tree order; comments contribute nothing.
\<close>

fun textContent_node :: "node \<Rightarrow> string"
  and textContent :: "node list \<Rightarrow> string" where
  "textContent_node (Element t a cs) = textContent cs"
| "textContent_node (Text d) = d"
| "textContent_node (Comment d) = []"
| "textContent [] = []"
| "textContent (n # ns) = textContent_node n @ textContent ns"

text \<open>
  \<open>getElementsByTagName\<close> on an XML document: every element whose tag name is exactly
  the given one (no case folding), the root included, in tree order.
\<close>

fun elements_named :: "string \<Rightarrow> node \<Rightarrow> node list"
  and elements_named_list :: "string \<Rightarrow> node list \<Rightarrow> node list" where
  "elements_named name (Element t a cs) =
     (if t = name then [Element t a cs] else []) @ elements_named_list name cs"
| "elements_named name (Text d) = []"
| "elements_named name (Comment d) = []"
| "elements_named_list name [] = []"
| "elements_named_list name (n # ns) = elements_named name n @ elements_named_list name ns"

fun getElementsByTagName :: "document \<Rightarrow> string \<Rightarrow> node list" where
  "getElementsByTagName (Document ns) name = elements_named_list name ns"

fun firstElementChild :: "document \<Rightarrow> node option" where
  "firstElementChild (Document ns) = find is_element ns"

section \<open>Attribute resolution\<close>

abbreviation (input) Tags_Expression :: string where "Tags_Expression \<equiv> ''e''"
abbreviation (input) Tags_Definition :: string where "Tags_Definition \<equiv> ''def''"
abbreviation (input) Tags_Diagram :: string where "Tags_Diagram \<equiv> ''diagram''"
abbreviation (input) Tags_Paragraph :: string where "Tags_Paragraph \<equiv> ''p''"
abbreviation (input) Tags_Scenario :: string where "Tags_Scenario \<equiv> ''scenario''"
abbreviation (input) Tags_Statement :: string where "Tags_Statement \<equiv> ''statement''"
abbreviation (input) Tags_Table :: string where "Tags_Table \<equiv> ''table''"

definition Tags :: "string set" where
  "Tags = {Tags_Expression, Tags_Definition, Tags_Diagram, Tags_Paragraph,
           Tags_Scenario, Tags_Statement, Tags_Table}"

text \<open>
  \<open>fromAttributes key attr\<close> scans the attribute sources left to right and returns the
  first value that is present and not the empty string; \<open>None\<close> is \<open>undefined\<close>.
\<close>

fun fromAttributes :: "string \<Rightarrow> NamedNodeMap list \<Rightarrow> string option" where
  "fromAttributes key [] = None"
| "fromAttributes key (a # attr) =
     (case a key of
        Some v \<Rightarrow> if v \<noteq> [] then Some v else fromAttributes key attr
      | None \<Rightarrow> fromAttributes key attr)"

section \<open>Content records and the tree walk\<close>

datatype Display = P_TEXT | I_TEXT | I_FORM | O_TEXT | O_TABLE | O_DIAGRAM

fun Display_string :: "Display \<Rightarrow> string" where
  "Display_string P_TEXT = ''plain/text''"
| "Display_string I_TEXT = ''input/text''"
| "Display_string I_FORM = ''input/form''"
| "Display_string O_TEXT = ''output/text''"
| "Display_string O_TABLE = ''output/table''"
| "Display_string O_DIAGRAM = ''output/diagram''"

text \<open>
  A content record. \<open>value_c\<close> is the field \<open>value\<close>. The kind-specific keys of the
  interface's index signature are kept as written in the object literal, in its order,
  each with the value it was given (\<open>None\<close> when the attribute lookup gave
  \<open>undefined\<close>); \<open>field c k\<close> reads such a key.
\<close>

record Content =
  displayId :: string
  display :: Display
  value_c :: "string option"
  props :: "(string \<times> string option) list"

definition field :: "Content \<Rightarrow> string \<Rightarrow> string option" where
  "field c k = (case map_of (props c) k of Some v \<Rightarrow> v | None \<Rightarrow> None)"

record IterContext =
  stack :: "Content list"
  count :: "string \<rightharpoonup> nat"

definition displayId_string :: "nat \<Rightarrow> nat \<Rightarrow> string" where
  "displayId_string idx n = number_string idx @ ''.'' @ number_string n"

text \<open>
  \<open>push node parentAttrs ctx idx\<close>: the tree has no parent pointers, so the attributes of
  the node's parent element are passed along. A node without a tag name returns at once.
  Otherwise the counter of the lower-cased tag is advanced first, then the tag is
  dispatched; an expression walks its element children with itself as their parent.
  \<open>push_children\<close> is that loop over \<open>children\<close>, the element children only.
  The counter object is a map from tag to count. (The names an object inherits from its
  prototype, \<open>constructor\<close> and \<open>__proto__\<close>, are not tags of the vocabulary, and the
  entry of a tag outside the vocabulary is never read again; the model counts such a tag
  like any other.)
\<close>

fun push :: "node \<Rightarrow> NamedNodeMap \<Rightarrow> IterContext \<Rightarrow> nat \<Rightarrow> IterContext"
  and push_children :: "node list \<Rightarrow> NamedNodeMap \<Rightarrow> IterContext \<Rightarrow> nat \<Rightarrow> IterContext" where
  "push (Text d) parentAttrs ctx idx = ctx"
| "push (Comment d) parentAttrs ctx idx = ctx"
| "push (Element tagName attributes children) parentAttrs ctx idx =
     (let tag = toLowerCase tagName;
          n = (case count ctx tag of Some c \<Rightarrow> c | None \<Rightarrow> 0) + 1;
          counted = (count ctx)(tag \<mapsto> n);
          text = trim (textContent children);
          did = displayId_string idx n
      in if tag = Tags_Paragraph then
           \<lparr>stack = stack ctx @
              [\<lparr>displayId = did, display = P_TEXT, value_c = Some text, props = []\<rparr>],
            count = counted\<rparr>
         else if tag = Tags_Expression then
           push_children children attributes
             \<lparr>stack = stack ctx @
                [\<lparr>displayId = did, display = I_TEXT,
                  value_c = fromAttributes ''value'' [attributes],
                  props = [(''rel'', fromAttributes ''rel'' [attributes]),
                           (''ref'', fromAttributes ''name'' [attributes]),
                           (''type'', fromAttributes ''type'' [attributes])]\<rparr>],
              count = counted\<rparr> idx
         else if tag = Tags_Table then
           \<lparr>stack = stack ctx @
              [\<lparr>displayId = did, display = O_TABLE,
                value_c = fromAttributes ''value'' [attributes, parentAttrs],
                props = [(''max'', fromAttributes ''max'' [attributes]),
                         (''cols'', fromAttributes ''cols'' [attributes]),
                         (''sort'', fromAttributes ''sort'' [attributes]),
                         (''fold'', fromAttributes ''fold'' [attributes])]\<rparr>],
            count = counted\<rparr>
         else if tag = Tags_Diagram then
           \<lparr>stack = stack ctx @
              [\<lparr>displayId = did, display = O_DIAGRAM,
                value_c = fromAttributes ''value'' [attributes, parentAttrs],
                props = [(''y'', fromAttributes ''y'' [attributes]),
                         (''x'', fromAttributes ''x'' [attributes]),
                         (''id'', fromAttributes ''id'' [attributes]),
                         (''max'', fromAttributes ''max'' [attributes]),
                         (''fold'', fromAttributes ''fold'' [attributes]),
                         (''type'', fromAttributes ''type'' [attributes])]\<rparr>],
            count = counted\<rparr>
         else if tag = Tags_Definition then
           \<lparr>stack = stack ctx @
              [\<lparr>displayId = did, display = I_TEXT,
                value_c = (if text \<noteq> [] then Some text
                           else fromAttributes ''value'' [attributes]),
                props = [(''def'', Some ''local''),
                         (''ref'', fromAttributes ''name'' [attributes]),
                         (''type'', fromAttributes ''type'' [attributes])]\<rparr>],
            count = counted\<rparr>
         else if tag = Tags_Scenario then
           \<lparr>stack = stack ctx @
              [\<lparr>displayId = did, display = I_FORM,
                value_c = fromAttributes ''value'' [attributes],
                props = [(''type'', fromAttributes ''type'' [attributes])]\<rparr>],
            count = counted\<rparr>
         else if tag = Tags_Statement then
           \<lparr>stack = stack ctx @
              [\<lparr>displayId = did, display = O_TEXT,
                value_c = (if text \<noteq> [] then Some text
                           else fromAttributes ''value'' [attributes]),
                props = [(''action'', fromAttributes ''action'' [attributes])]\<rparr>],
            count = counted\<rparr>
         else \<lparr>stack = stack ctx, count = counted\<rparr>)"
| "push_children [] parentAttrs ctx idx = ctx"
| "push_children (c # cs) parentAttrs ctx idx =
     (if is_element c then push_children cs parentAttrs (push c parentAttrs ctx idx) idx
      else push_children cs parentAttrs ctx idx)"

text \<open>The loop of an article over all its child nodes, text nodes included.\<close>

fun push_childNodes :: "node list \<Rightarrow> NamedNodeMap \<Rightarrow> IterContext \<Rightarrow> nat \<Rightarrow> IterContext" where
  "push_childNodes [] parentAttrs ctx idx = ctx"
| "push_childNodes (c # cs) parentAttrs ctx idx =
     push_childNodes cs parentAttrs (push c parentAttrs ctx idx) idx"

section \<open>Articles, terminology and the parser object\<close>

record Terminology =
  name :: "string option"
  value_t :: "string option"

record Article =
  title :: "string option"
  content :: "Content list"

text \<open>
  The parser collects its results in two \<open>Set\<close> objects. A \<open>Set\<close> of objects compares
  by identity, so the model keeps object identity: every object literal is allocated at a
  fresh reference in a heap, a set is the list of the references added to it in
  insertion order, and adding a reference that is already a member changes nothing.
  \<open>Array_from\<close> reads the members back in insertion order.
\<close>

type_synonym ref = nat

record Heap =
  article_objects :: "Article list"
  terminology_objects :: "Terminology list"

definition new_object :: "'a list \<Rightarrow> 'a \<Rightarrow> ref \<times> 'a list" where
  "new_object objs v = (length objs, objs @ [v])"

definition Set_add :: "ref list \<Rightarrow> ref \<Rightarrow> ref list" where
  "Set_add s r = (if r \<in> set s then s else s @ [r])"

definition Array_from :: "'a list \<Rightarrow> ref list \<Rightarrow> 'a list" where
  "Array_from objs s =
     List.map_filter (\<lambda>r. if r < length objs then Some (objs ! r) else None) s"

record Parser =
  articles_set :: "ref list"
  terminology_set :: "ref list"

definition truthy :: "string option \<Rightarrow> bool" where
  "truthy v = (case v of Some s \<Rightarrow> s \<noteq> [] | None \<Rightarrow> False)"

text \<open>
  The article loop: \<open>i\<close> is the loop index, so the ordinal handed to \<open>push\<close> is \<open>i + 1\<close>.
  \<open>article_stack\<close> is the stack after the walk of one article, before the filter. The
  collection the loops run over comes from \<open>getElementsByTagName\<close> and holds elements
  only; the last equation of each loop is there for totality and is never reached.
\<close>

definition article_stack :: "nat \<Rightarrow> NamedNodeMap \<Rightarrow> node list \<Rightarrow> Content list" where
  "article_stack idx attributes childNodes =
     stack (push_childNodes childNodes attributes \<lparr>stack = [], count = Map.empty\<rparr> idx)"

fun article_loop :: "node list \<Rightarrow> nat \<Rightarrow> Parser \<times> Heap \<Rightarrow> Parser \<times> Heap" where
  "article_loop [] i st = st"
| "article_loop (Element t attributes childNodes # rest) i (p, h) =
     (let title = fromAttributes ''title'' [attributes];
          kept = filter (\<lambda>a. truthy (value_c a)) (article_stack (i + 1) attributes childNodes);
          (r, objs) = new_object (article_objects h) \<lparr>title = title, content = kept\<rparr>
      in article_loop rest (i + 1)
           (p\<lparr>articles_set := Set_add (articles_set p) r\<rparr>, h\<lparr>article_objects := objs\<rparr>))"
| "article_loop (n # rest) i st = article_loop rest (i + 1) st"

definition iterEachArticle :: "document \<Rightarrow> Parser \<times> Heap \<Rightarrow> Parser \<times> Heap" where
  "iterEachArticle xml st = article_loop (getElementsByTagName xml ''article'') 0 st"

fun terminology_loop :: "node list \<Rightarrow> Parser \<times> Heap \<Rightarrow> Parser \<times> Heap" where
  "terminology_loop [] st = st"
| "terminology_loop (Element t attributes childNodes # rest) (p, h) =
     (let nm = fromAttributes ''name'' [attributes];
          v = fromAttributes ''value'' [attributes];
          (r, objs) = new_object (terminology_objects h) \<lparr>name = nm, value_t = v\<rparr>
      in terminology_loop rest
           (p\<lparr>terminology_set := Set_add (terminology_set p) r\<rparr>,
            h\<lparr>terminology_objects := objs\<rparr>))"
| "terminology_loop (n # rest) st = terminology_loop rest st"

definition iterEachTerminology :: "document \<Rightarrow> Parser \<times> Heap \<Rightarrow> Parser \<times> Heap" where
  "iterEachTerminology xml st = terminology_loop (getElementsByTagName xml ''def'') st"

definition iterEach :: "document \<Rightarrow> Parser \<times> Heap \<Rightarrow> Parser \<times> Heap" where
  "iterEach xml st = iterEachTerminology xml (iterEachArticle xml st)"

section \<open>The transform\<close>

record Issue =
  terminology :: "Terminology list"
  articles :: "Article list"
  language :: "string option"
  currency :: "string option"
  version :: "string option"

datatype error = TypeError

text \<open>
  \<open>parse\<close> on the document the external parser produced, run in a heap \<open>h\<close> that holds
  whatever was allocated before. Reading the attributes of a missing root element
  throws; otherwise a new parser object with two empty sets does the two passes, and
  the sets are copied into arrays.
\<close>

definition new_Parser :: Parser where
  "new_Parser = \<lparr>articles_set = [], terminology_set = []\<rparr>"

fun parse :: "Heap \<Rightarrow> document \<Rightarrow> (error + Issue) \<times> Heap" where
  "parse h xml =
     (case firstElementChild xml of
        Some (Element t attributes childNodes) \<Rightarrow>
          (let (p, h') = iterEach xml (new_Parser, h)
           in (Inr \<lparr>terminology = Array_from (terminology_objects h') (terminology_set p),
                    articles = Array_from (article_objects h') (articles_set p),
                    language = fromAttributes ''language'' [attributes],
                    currency = fromAttributes ''currency'' [attributes],
                    version = fromAttributes ''version'' [attributes]\<rparr>, h'))
      | _ \<Rightarrow> (Inl TypeError, h))"

section \<open>Notions used to state the properties\<close>

text \<open>The count a counter object holds for a tag, and the counter advanced by one.\<close>

definition cnt :: "(string \<rightharpoonup> nat) \<Rightarrow> string \<Rightarrow> nat" where
  "cnt c t = (case c t of Some n \<Rightarrow> n | None \<Rightarrow> 0)"

definition bump :: "(string \<rightharpoonup> nat) \<Rightarrow> string \<Rightarrow> (string \<rightharpoonup> nat)" where
  "bump c t = c(t \<mapsto> cnt c t + 1)"

text \<open>
  The records the dispatch of \<open>push\<close> appends for a lower-cased tag, given the
  element's attributes, its parent's attributes, its trimmed text content and the display
  identifier: one record for a tag of the vocabulary, none for any other tag.
\<close>

definition built :: "string \<Rightarrow> NamedNodeMap \<Rightarrow> NamedNodeMap \<Rightarrow> string \<Rightarrow> string \<Rightarrow> Content list" where
  "built tag attributes parentAttrs text did =
     (if tag = Tags_Paragraph then
        [\<lparr>displayId = did, display = P_TEXT, value_c = Some text, props = []\<rparr>]
      else if tag = Tags_Expression then
        [\<lparr>displayId = did, display = I_TEXT,
          value_c = fromAttributes ''value'' [attributes],
          props = [(''rel'', fromAttributes ''rel'' [attributes]),
                   (''ref'', fromAttributes ''name'' [attributes]),
                   (''type'', fromAttributes ''type'' [attributes])]\<rparr>]
      else if tag = Tags_Table then
        [\<lparr>displayId = did, display = O_TABLE,
          value_c = fromAttributes ''value'' [attributes, parentAttrs],
          props = [(''max'', fromAttributes ''max'' [attributes]),
                   (''cols'', fromAttributes ''cols'' [attributes]),
                   (''sort'', fromAttributes ''sort'' [attributes]),
                   (''fold'', fromAttributes ''fold'' [attributes])]\<rparr>]
      else if tag = Tags_Diagram then
        [\<lparr>displayId = did, display = O_DIAGRAM,
          value_c = fromAttributes ''value'' [attributes, parentAttrs],
          props = [(''y'', fromAttributes ''y'' [attributes]),
                   (''x'', fromAttributes ''x'' [attributes]),
                   (''id'', fromAttributes ''id'' [attributes]),
                   (''max'', fromAttributes ''max'' [attributes]),
                   (''fold'', fromAttributes ''fold'' [attributes]),
                   (''type'', fromAttributes ''type'' [attributes])]\<rparr>]
      else if tag = Tags_Definition then
        [\<lparr>displayId = did, display = I_TEXT,
          value_c = (if text \<noteq> [] then Some text
                     else fromAttributes ''value'' [attributes]),
          props = [(''def'', Some ''local''),
                   (''ref'', fromAttributes ''name'' [attributes]),
                   (''type'', fromAttributes ''type'' [attributes])]\<rparr>]
      else if tag = Tags_Scenario then
        [\<lparr>displayId = did, display = I_FORM,
          value_c = fromAttributes ''value'' [attributes],
          props = [(''type'', fromAttributes ''type'' [attributes])]\<rparr>]
      else if tag = Tags_Statement then
        [\<lparr>displayId = did, display = O_TEXT,
          value_c = (if text \<noteq> [] then Some text
                     else fromAttributes ''value'' [attributes]),
          props = [(''action'', fromAttributes ''action'' [attributes])]\<rparr>]
      else [])"

text \<open>
  The elements a walk encounters, in the order it encounters them: each element node of
  the list in document order, and right after an expression element the elements
  encountered among its children. An encounter is the element's tag name, attributes and
  child nodes together with the attributes of its parent element; \<open>tag_of\<close> is its
  lower-cased tag.
\<close>

type_synonym encounter = "string \<times> NamedNodeMap \<times> node list \<times> NamedNodeMap"

fun tag_of :: "encounter \<Rightarrow> string" where
  "tag_of (t, a, cs, pa) = toLowerCase t"

fun encountered :: "NamedNodeMap \<Rightarrow> node \<Rightarrow> encounter list"
  and encountered_list :: "NamedNodeMap \<Rightarrow> node list \<Rightarrow> encounter list" where
  "encountered pa (Element t a cs) =
     (t, a, cs, pa) #
     (if toLowerCase t = Tags_Expression then encountered_list a cs else [])"
| "encountered pa (Text d) = []"
| "encountered pa (Comment d) = []"
| "encountered_list pa [] = []"
| "encountered_list pa (n # ns) = encountered pa n @ encountered_list pa ns"

text \<open>
  The records a numbering by occurrence gives along a sequence of encounters, starting
  from the counters \<open>c\<close>: every element advances the counter of its tag, and an
  element of the vocabulary gets the record of its kind with the advanced count in its
  display identifier. \<open>ids\<close> is the same numbering on the tags alone.
\<close>

fun records :: "nat \<Rightarrow> (string \<rightharpoonup> nat) \<Rightarrow> encounter list \<Rightarrow> Content list" where
  "records idx c [] = []"
| "records idx c ((t, a, cs, pa) # es) =
     built (toLowerCase t) a pa (trim (textContent cs))
       (displayId_string idx (cnt c (toLowerCase t) + 1)) @
     records idx (bump c (toLowerCase t)) es"

fun ids :: "nat \<Rightarrow> (string \<rightharpoonup> nat) \<Rightarrow> string list \<Rightarrow> string list" where
  "ids idx c [] = []"
| "ids idx c (t # ts) =
     (if t \<in> Tags then [displayId_string idx (cnt c t + 1)] else []) @ ids idx (bump c t) ts"

text \<open>
  The counters after a sequence of tags, and the context a walk is to leave behind after
  a sequence of encounters: the records appended in order, the counters advanced.
\<close>

definition bump_all :: "(string \<rightharpoonup> nat) \<Rightarrow> string list \<Rightarrow> (string \<rightharpoonup> nat)" where
  "bump_all c ts = fold (\<lambda>t c. bump c t) ts c"

definition walks :: "nat \<Rightarrow> IterContext \<Rightarrow> encounter list \<Rightarrow> IterContext" where
  "walks idx ctx es =
     \<lparr>stack = stack ctx @ records idx (count ctx) es,
      count = bump_all (count ctx) (map tag_of es)\<rparr>"

text \<open>All elements of a tree, at any depth, in tree order; \<open>named\<close> tells an element of a given tag name.\<close>

fun all_elements :: "node \<Rightarrow> node list"
  and all_elements_list :: "node list \<Rightarrow> node list" where
  "all_elements (Element t a cs) = Element t a cs # all_elements_list cs"
| "all_elements (Text d) = []"
| "all_elements (Comment d) = []"
| "all_elements_list [] = []"
| "all_elements_list (n # ns) = all_elements n @ all_elements_list ns"

fun named :: "string \<Rightarrow> node \<Rightarrow> bool" where
  "named nm (Element t a cs) = (t = nm)"
| "named nm (Text d) = False"
| "named nm (Comment d) = False"

fun document_elements :: "document \<Rightarrow> node list" where
  "document_elements (Document ns) = all_elements_list ns"

text \<open>The object one round of the article loop, and of the terminology loop, builds.\<close>

fun article_of :: "nat \<Rightarrow> node \<Rightarrow> Article" where
  "article_of idx (Element t a cs) =
     \<lparr>title = fromAttributes ''title'' [a],
      content = filter (\<lambda>c. truthy (value_c c)) (article_stack idx a cs)\<rparr>"
| "article_of idx n = \<lparr>title = None, content = []\<rparr>"

fun terminology_of :: "node \<Rightarrow> Terminology" where
  "terminology_of (Element t a cs) =
     \<lparr>name = fromAttributes ''name'' [a], value_t = fromAttributes ''value'' [a]\<rparr>"
| "terminology_of n = \<lparr>name = None, value_t = None\<rparr>"

definition articles_of :: "document \<Rightarrow> Article list" where
  "articles_of xml =
     map (\<lambda>(k, e). article_of (Suc k) e) (List.enumerate 0 (getElementsByTagName xml ''article''))"

section \<open>Example documents\<close>

definition empty_heap :: Heap where
  "empty_heap = \<lparr>article_objects = [], terminology_objects = []\<rparr>"

text \<open>A heap in which an earlier run has left objects behind.\<close>

definition used_heap :: Heap where
  "used_heap =
     \<lparr>article_objects = [\<lparr>title = Some ''old'', content = []\<rparr>],
      terminology_objects = [\<lparr>name = Some ''old'', value_t = None\<rparr>,
                             \<lparr>name = None, value_t = None\<rparr>]\<rparr>"

text \<open>One article with the paragraphs \<open>Hello\<close> and the empty one, white space between them.\<close>

definition doc_paragraphs :: document where
  "doc_paragraphs =
     Document [Element ''issue'' [''language'' \<mapsto> ''ro-RO'', ''version'' \<mapsto> ''1.0'']
       [Element ''article'' [''title'' \<mapsto> ''A'']
         [Element ''p'' Map.empty [Text ''Hello''], Text '' '', Element ''p'' Map.empty []]]]"

text \<open>An expression named Euro around an expression named Sub, neither with a value.\<close>

definition doc_nested_bare :: document where
  "doc_nested_bare =
     Document [Element ''issue'' Map.empty
       [Element ''article'' Map.empty
         [Element ''e'' [''name'' \<mapsto> ''Euro''] [Element ''e'' [''name'' \<mapsto> ''Sub''] []]]]]"

text \<open>A definition inside a paragraph of an article.\<close>

definition doc_def_in_paragraph :: document where
  "doc_def_in_paragraph =
     Document [Element ''issue'' Map.empty
       [Element ''article'' Map.empty
         [Element ''p'' Map.empty
           [Text ''see'', Element ''def'' [''name'' \<mapsto> ''a'', ''value'' \<mapsto> ''1''] []]]]]"

text \<open>
  A definition outside any article, and an article with a definition that has both text
  and a \<open>value\<close> attribute.
\<close>

definition doc_definitions :: document where
  "doc_definitions =
     Document [Element ''issue'' Map.empty
       [Element ''def'' [''name'' \<mapsto> ''g'', ''value'' \<mapsto> ''1''] [],
        Element ''article'' [''title'' \<mapsto> ''T'']
          [Element ''def'' [''name'' \<mapsto> ''Euro'', ''value'' \<mapsto> ''attr'']
             [Text '' 1 RON = ? EUR '']]]]"

text \<open>Two articles alike and two definitions alike.\<close>

definition doc_duplicates :: document where
  "doc_duplicates =
     Document [Element ''issue'' Map.empty
       [Element ''article'' [''title'' \<mapsto> ''A''] [],
        Element ''article'' [''title'' \<mapsto> ''A''] [],
        Element ''def'' [''name'' \<mapsto> ''n'', ''value'' \<mapsto> ''v''] [],
        Element ''def'' [''name'' \<mapsto> ''n'', ''value'' \<mapsto> ''v''] []]]"

section \<open>The two passes and the transform, in closed form\<close>

lemma elements_named_are_elements:
  "\<forall>e \<in> set (elements_named nm n). is_element e"
  "\<forall>e \<in> set (elements_named_list nm ns). is_element e"
  by (induction nm n and nm ns rule: elements_named_elements_named_list.induct) auto

lemma getElementsByTagName_elements:
  "e \<in> set (getElementsByTagName xml nm) \<Longrightarrow> is_element e"
  using elements_named_are_elements(2) by (cases xml) auto

lemma Array_from_fresh:
  assumes "m = length ys"
  shows "Array_from (xs @ ys) [length xs..<length xs + m] = ys"
  unfolding assms
proof -
  have "map (\<lambda>r. (xs @ ys) ! r) [length xs..<length xs + length ys] = ys"
    by (rule nth_equalityI) (auto simp: nth_append)
  moreover have "List.map_filter (\<lambda>r. if r < length (xs @ ys) then Some ((xs @ ys) ! r) else None)
      [length xs..<length xs + length ys] = map (\<lambda>r. (xs @ ys) ! r) [length xs..<length xs + length ys]"
    by (induction ys rule: rev_induct) (auto simp: List.map_filter_def nth_append)
  ultimately show "Array_from (xs @ ys) [length xs..<length xs + length ys] = ys"
    by (simp add: Array_from_def)
qed

lemma upt_fresh: "[l..<Suc (l + m)] = l # [Suc l..<Suc (l + m)]"
  by (simp add: upt_conv_Cons del: upt_Suc)

lemma article_loop_result:
  assumes "\<forall>n \<in> set es. is_element n"
    and "\<forall>r \<in> set (articles_set p). r < length (article_objects h)"
  shows "article_loop es i (p, h) =
    (p\<lparr>articles_set := articles_set p @
         [length (article_objects h)..<length (article_objects h) + length es]\<rparr>,
     h\<lparr>article_objects := article_objects h @
         map (\<lambda>(k, e). article_of (Suc k) e) (List.enumerate i es)\<rparr>)"
  using assms
proof (induction es arbitrary: i p h)
  case Nil
  then show ?case by simp
next
  case (Cons e es)
  then obtain t a cs where e: "e = Element t a cs" by (cases e) auto
  let ?l = "length (article_objects h)"
  let ?p = "p\<lparr>articles_set := articles_set p @ [?l]\<rparr>"
  let ?h = "h\<lparr>article_objects := article_objects h @ [article_of (Suc i) e]\<rparr>"
  have fresh: "?l \<notin> set (articles_set p)" using Cons.prems(2) by auto
  have step: "article_loop (e # es) i (p, h) = article_loop es (Suc i) (?p, ?h)"
    using fresh by (simp add: e new_object_def Set_add_def)
  have "\<forall>n \<in> set es. is_element n" using Cons.prems(1) by simp
  moreover have "\<forall>r \<in> set (articles_set ?p). r < length (article_objects ?h)"
    using Cons.prems(2) by (auto simp: less_Suc_eq)
  ultimately have "article_loop es (Suc i) (?p, ?h) =
    (?p\<lparr>articles_set := articles_set ?p @
         [length (article_objects ?h)..<length (article_objects ?h) + length es]\<rparr>,
     ?h\<lparr>article_objects := article_objects ?h @
         map (\<lambda>(k, e). article_of (Suc k) e) (List.enumerate (Suc i) es)\<rparr>)"
    by (rule Cons.IH)
  then show ?case
    unfolding step by (simp add: upt_fresh del: upt_Suc)
qed

lemma terminology_loop_result:
  assumes "\<forall>n \<in> set es. is_element n"
    and "\<forall>r \<in> set (terminology_set p). r < length (terminology_objects h)"
  shows "terminology_loop es (p, h) =
    (p\<lparr>terminology_set := terminology_set p @
         [length (terminology_objects h)..<length (terminology_objects h) + length es]\<rparr>,
     h\<lparr>terminology_objects := terminology_objects h @ map terminology_of es\<rparr>)"
  using assms
proof (induction es arbitrary: p h)
  case Nil
  then show ?case by simp
next
  case (Cons e es)
  then obtain t a cs where e: "e = Element t a cs" by (cases e) auto
  let ?l = "length (terminology_objects h)"
  let ?p = "p\<lparr>terminology_set := terminology_set p @ [?l]\<rparr>"
  let ?h = "h\<lparr>terminology_objects := terminology_objects h @ [terminology_of e]\<rparr>"
  have fresh: "?l \<notin> set (terminology_set p)" using Cons.prems(2) by auto
  have step: "terminology_loop (e # es) (p, h) = terminology_loop es (?p, ?h)"
    using fresh by (simp add: e new_object_def Set_add_def)
  have "\<forall>n \<in> set es. is_element n" using Cons.prems(1) by simp
  moreover have "\<forall>r \<in> set (terminology_set ?p). r < length (terminology_objects ?h)"
    using Cons.prems(2) by (auto simp: less_Suc_eq)
  ultimately have "terminology_loop es (?p, ?h) =
    (?p\<lparr>terminology_set := terminology_set ?p @
         [length (terminology_objects ?h)..<length (terminology_objects ?h) + length es]\<rparr>,
     ?h\<lparr>terminology_objects := terminology_objects ?h @ map terminology_of es\<rparr>)"
    by (rule Cons.IH)
  then show ?case
    unfolding step by (simp add: upt_fresh del: upt_Suc)
qed

lemma iterEach_result:
  "iterEach xml (new_Parser, h) =
     (\<lparr>articles_set = [length (article_objects h)..<
          length (article_objects h) + length (getElementsByTagName xml ''article'')],
       terminology_set = [length (terminology_objects h)..<
          length (terminology_objects h) + length (getElementsByTagName xml ''def'')]\<rparr>,
      \<lparr>article_objects = article_objects h @ articles_of xml,
       terminology_objects = terminology_objects h @
          map terminology_of (getElementsByTagName xml ''def'')\<rparr>)"
proof -
  let ?as = "getElementsByTagName xml ''article''"
  let ?ds = "getElementsByTagName xml ''def''"
  have a: "\<forall>n \<in> set ?as. is_element n" and d: "\<forall>n \<in> set ?ds. is_element n"
    using getElementsByTagName_elements by blast+
  have 1: "iterEachArticle xml (new_Parser, h) =
      (new_Parser\<lparr>articles_set := [length (article_objects h)..<
          length (article_objects h) + length ?as]\<rparr>,
       h\<lparr>article_objects := article_objects h @ articles_of xml\<rparr>)"
    unfolding iterEachArticle_def articles_of_def
    using article_loop_result [OF a, of new_Parser h 0] by (simp add: new_Parser_def)
  show ?thesis
    unfolding iterEach_def 1 iterEachTerminology_def
    by (subst terminology_loop_result [OF d]) (simp_all add: new_Parser_def)
qed

lemma parse_result:
  assumes "firstElementChild xml = Some (Element t a cs)"
  shows "fst (parse h xml) =
     Inr \<lparr>terminology = map terminology_of (getElementsByTagName xml ''def''),
          articles = articles_of xml,
          language = fromAttributes ''language'' [a],
          currency = fromAttributes ''currency'' [a],
          version = fromAttributes ''version'' [a]\<rparr>"
  using assms by (simp add: iterEach_result Array_from_fresh articles_of_def)

lemma parse_error:
  assumes "\<nexists>t a cs. firstElementChild xml = Some (Element t a cs)"
  shows "parse h xml = (Inl TypeError, h)"
  using assms by (auto split: option.splits node.splits)

lemma parse_Inr_cases:
  assumes "fst (parse h xml) = Inr issue"
  obtains t a cs where "firstElementChild xml = Some (Element t a cs)"
  using assms by (auto split: option.splits node.splits)

lemma articles_of_nth:
  assumes "k < length (getElementsByTagName xml ''article'')"
  shows "articles_of xml ! k = article_of (Suc k) (getElementsByTagName xml ''article'' ! k)"
  using assms by (simp add: articles_of_def nth_enumerate_eq)

lemma length_articles_of:
  "length (articles_of xml) = length (getElementsByTagName xml ''article'')"
  by (simp add: articles_of_def)

lemma article_of_truthy:
  "c \<in> set (content (article_of idx e)) \<Longrightarrow> truthy (value_c c)"
  by (cases e) auto

lemma articles_of_truthy:
  assumes "a \<in> set (articles_of xml)" and "c \<in> set (content a)"
  shows "truthy (value_c c)"
  using assms article_of_truthy by (auto simp: articles_of_def)


section \<open>The dispatch of one element\<close>

lemma cnt_bump: "cnt (bump c t) u = (if u = t then cnt c t + 1 else cnt c u)"
  by (simp add: cnt_def bump_def)

lemma push_Element:
  "push (Element t a cs) pa ctx idx =
     (let ctx' = \<lparr>stack = stack ctx @
                     built (toLowerCase t) a pa (trim (textContent cs))
                       (displayId_string idx (cnt (count ctx) (toLowerCase t) + 1)),
                   count = bump (count ctx) (toLowerCase t)\<rparr>
      in if toLowerCase t = Tags_Expression then push_children cs a ctx' idx else ctx')"
  by (simp add: Let_def built_def bump_def cnt_def)

lemma built_outside: "tag \<notin> Tags \<Longrightarrow> built tag a pa tx did = []"
  by (simp add: built_def Tags_def)

lemma built_inside:
  "tag \<in> Tags \<Longrightarrow> \<exists>r. built tag a pa tx did = [r] \<and> displayId r = did"
  by (auto simp: built_def Tags_def)

lemma displayId_built:
  "map displayId (built tag a pa tx did) = (if tag \<in> Tags then [did] else [])"
  using built_outside [of tag a pa tx did] built_inside [of tag a pa tx did] by auto

lemma push_not_expression:
  "toLowerCase t \<noteq> Tags_Expression \<Longrightarrow>
   push (Element t a cs) pa ctx idx =
     \<lparr>stack = stack ctx @
        built (toLowerCase t) a pa (trim (textContent cs))
          (displayId_string idx (cnt (count ctx) (toLowerCase t) + 1)),
      count = bump (count ctx) (toLowerCase t)\<rparr>"
  by (simp add: push_Element del: push.simps)


lemma push_not_element: "\<not> is_element n \<Longrightarrow> push n pa ctx idx = ctx"
  by (cases n) simp_all

section \<open>Nodes the walk ignores\<close>




section \<open>Value of a table and of a diagram\<close>

text \<open>
  C4. A table element and a diagram element each append exactly one record, whose value
  is the element's own \<open>value\<close> attribute when that is present and non-empty,
  otherwise the parent element's \<open>value\<close> attribute when that is present and
  non-empty, and otherwise absent.
\<close>
theorem table_diagram_value:
  assumes "toLowerCase t = Tags_Table \<or> toLowerCase t = Tags_Diagram"
  shows "\<exists>r. stack (push (Element t a cs) pa ctx idx) = stack ctx @ [r] \<and>
           display r = (if toLowerCase t = Tags_Table then O_TABLE else O_DIAGRAM) \<and>
           value_c r =
             (if truthy (a ''value'') then a ''value''
              else if truthy (pa ''value'') then pa ''value''
              else None)"
proof -
  from assms have "toLowerCase t \<noteq> Tags_Expression" by auto
  then show ?thesis
    using assms
    by (auto simp: push_not_expression built_def truthy_def split: option.splits
        simp del: push.simps)
qed

theorem table_diagram_value_witness:
  "(\<exists>r. stack (push (Element ''table'' [''cols'' \<mapsto> ''ds''] []) [''value'' \<mapsto> ''Ref. 1'']
              \<lparr>stack = [], count = Map.empty\<rparr> 1) = [] @ [r] \<and>
        display r = O_TABLE \<and> value_c r = Some ''Ref. 1'') \<and>
   (\<exists>r. stack (push (Element ''Diagram'' [''value'' \<mapsto> ''own''] []) [''value'' \<mapsto> ''Ref. 1'']
              \<lparr>stack = [], count = Map.empty\<rparr> 1) = [] @ [r] \<and>
        display r = O_DIAGRAM \<and> value_c r = Some ''own'') \<and>
   (\<exists>r. stack (push (Element ''table'' [''value'' \<mapsto> []] []) Map.empty
              \<lparr>stack = [], count = Map.empty\<rparr> 1) = [] @ [r] \<and>
        display r = O_TABLE \<and> value_c r = None)"
proof -
  have low: "toLowerCase ''table'' = ''table''" "toLowerCase ''Diagram'' = ''diagram''"
    by code_simp+
  show ?thesis
    using table_diagram_value [of "''table''" "[''cols'' \<mapsto> ''ds'']" "[]" "[''value'' \<mapsto> ''Ref. 1'']"
        "\<lparr>stack = [], count = Map.empty\<rparr>" 1]
      table_diagram_value [of "''Diagram''" "[''value'' \<mapsto> ''own'']" "[]" "[''value'' \<mapsto> ''Ref. 1'']"
        "\<lparr>stack = [], count = Map.empty\<rparr>" 1]
      table_diagram_value [of "''table''" "[''value'' \<mapsto> []]" "[]" Map.empty
        "\<lparr>stack = [], count = Map.empty\<rparr>" 1]
    by (simp add: low truthy_def del: push.simps)
qed

section \<open>Content of a definition\<close>

text \<open>
  C5. A definition element appends exactly one record, of display kind input/text, whose
  \<open>def\<close> field is the constant \<open>local\<close>. Its value is the trimmed text content
  whenever that is non-empty, whatever the \<open>value\<close> attribute holds; the attribute
  lookup is used only when the trimmed text content is empty.
\<close>
theorem definition_content:
  assumes "toLowerCase t = Tags_Definition"
  shows "\<exists>r. stack (push (Element t a cs) pa ctx idx) = stack ctx @ [r] \<and>
           display r = I_TEXT \<and>
           field r ''def'' = Some ''local'' \<and>
           field r ''ref'' = fromAttributes ''name'' [a] \<and>
           field r ''type'' = fromAttributes ''type'' [a] \<and>
           (trim (textContent cs) \<noteq> [] \<longrightarrow> value_c r = Some (trim (textContent cs))) \<and>
           (trim (textContent cs) = [] \<longrightarrow> value_c r = fromAttributes ''value'' [a])"
proof -
  from assms have "toLowerCase t \<noteq> Tags_Expression" by auto
  then show ?thesis
    using assms
    by (simp add: push_not_expression built_def field_def del: push.simps fromAttributes.simps)
qed

theorem definition_content_witness:
  "\<exists>r. stack (push (Element ''def'' [''name'' \<mapsto> ''Euro'', ''value'' \<mapsto> ''attr''] [Text '' 1 RON = ? EUR ''])
             Map.empty \<lparr>stack = [], count = Map.empty\<rparr> 1) = [] @ [r] \<and>
        display r = I_TEXT \<and> field r ''def'' = Some ''local'' \<and>
        field r ''ref'' = Some ''Euro'' \<and>
        value_c r = Some ''1 RON = ? EUR''"
proof -
  have low: "toLowerCase ''def'' = ''def''" by code_simp
  have tr: "trim (textContent [Text '' 1 RON = ? EUR '']) = ''1 RON = ? EUR''" by code_simp
  show ?thesis
    using definition_content [of "''def''" "[''name'' \<mapsto> ''Euro'', ''value'' \<mapsto> ''attr'']"
        "[Text '' 1 RON = ? EUR '']" Map.empty "\<lparr>stack = [], count = Map.empty\<rparr>" 1]
    by (auto simp: low tr simp del: push.simps textContent.simps)
qed

section \<open>The walk as a numbering by occurrence\<close>

lemma push_childNodes_eq:
  "push_childNodes ns pa ctx idx = push_children ns pa ctx idx"
proof (induction ns arbitrary: ctx)
  case Nil
  then show ?case by simp
next
  case (Cons n ns)
  then show ?case
    by (cases "is_element n") (simp_all add: push_not_element del: push.simps)
qed

lemma bump_all_simps [simp]:
  "bump_all c [] = c"
  "bump_all c (t # ts) = bump_all (bump c t) ts"
  "bump_all c (ts @ us) = bump_all (bump_all c ts) us"
  by (simp_all add: bump_all_def)

lemma records_append:
  "records idx c (xs @ ys) =
     records idx c xs @ records idx (bump_all c (map tag_of xs)) ys"
  by (induction xs arbitrary: c) auto

lemma displayId_records:
  "map displayId (records idx c es) = ids idx c (map tag_of es)"
  by (induction es arbitrary: c) (auto simp: displayId_built)

lemma walks_Nil [simp]: "walks idx ctx [] = ctx"
  by (simp add: walks_def)

lemma walks_append: "walks idx ctx (xs @ ys) = walks idx (walks idx ctx xs) ys"
  by (simp add: walks_def records_append)

lemma push_children_walks:
  assumes "\<And>n pa ctx. n \<in> set ns \<Longrightarrow> push n pa ctx idx = walks idx ctx (encountered pa n)"
  shows "push_children ns pa ctx idx = walks idx ctx (encountered_list pa ns)"
  using assms
proof (induction ns arbitrary: ctx)
  case Nil
  then show ?case by simp
next
  case (Cons n ns)
  have rest: "push_children ns pa ctx' idx = walks idx ctx' (encountered_list pa ns)" for ctx'
    using Cons by simp
  show ?case
  proof (cases "is_element n")
    case True
    then show ?thesis
      using Cons.prems [of n pa ctx] by (simp add: rest walks_append del: push.simps)
  next
    case False
    then have "encountered pa n = []" by (cases n) simp_all
    with False show ?thesis by (simp add: rest)
  qed
qed

lemma push_walks: "push n pa ctx idx = walks idx ctx (encountered pa n)"
proof (induction n arbitrary: pa ctx)
  case (Element t a cs)
  let ?ctx = "\<lparr>stack = stack ctx @
      built (toLowerCase t) a pa (trim (textContent cs))
        (displayId_string idx (cnt (count ctx) (toLowerCase t) + 1)),
      count = bump (count ctx) (toLowerCase t)\<rparr>"
  have one: "?ctx = walks idx ctx [(t, a, cs, pa)]"
    by (simp add: walks_def)
  show ?case
  proof (cases "toLowerCase t = Tags_Expression")
    case True
    have "push (Element t a cs) pa ctx idx = push_children cs a ?ctx idx"
      using True by (simp add: push_Element del: push.simps)
    also have "\<dots> = walks idx ?ctx (encountered_list a cs)"
      using Element.IH by (rule push_children_walks)
    also have "\<dots> = walks idx ctx ([(t, a, cs, pa)] @ encountered_list a cs)"
      unfolding one by (simp only: walks_append)
    finally show ?thesis using True by simp
  next
    case False
    then have "push (Element t a cs) pa ctx idx = ?ctx"
      by (simp add: push_Element del: push.simps)
    then show ?thesis using False one by simp
  qed
next
  case (Text d)
  then show ?case by simp
next
  case (Comment d)
  then show ?case by simp
qed

lemma article_stack_records:
  "article_stack idx a ns = records idx Map.empty (encountered_list a ns)"
  unfolding article_stack_def push_childNodes_eq
  by (subst push_children_walks) (simp_all add: push_walks walks_def del: push.simps)

lemma ids_closed_form:
  "ids idx c ts =
     map (\<lambda>k. displayId_string idx
                (cnt c (filter (\<lambda>t. t \<in> Tags) ts ! k) +
                 count_list (take (Suc k) (filter (\<lambda>t. t \<in> Tags) ts))
                   (filter (\<lambda>t. t \<in> Tags) ts ! k)))
       [0..<length (filter (\<lambda>t. t \<in> Tags) ts)]"
proof (induction ts arbitrary: c)
  case Nil
  then show ?case by simp
next
  case (Cons t ts)
  let ?rs = "filter (\<lambda>t. t \<in> Tags) ts"
  show ?case
  proof (cases "t \<in> Tags")
    case True
    then show ?thesis
      by (simp add: Cons.IH map_upt_Suc cnt_bump del: upt_Suc)
  next
    case False
    have "cnt (bump c t) (?rs ! k) = cnt c (?rs ! k)" if "k < length ?rs" for k
    proof -
      have "?rs ! k \<in> set ?rs" using that by (rule nth_mem)
      then have "?rs ! k \<in> Tags" by simp
      with False have "?rs ! k \<noteq> t" by auto
      then show ?thesis by (simp add: cnt_bump)
    qed
    with False show ?thesis
      by (simp add: Cons.IH)
  qed
qed

text \<open>
  C1. The stack an article's walk builds for ordinal \<open>A\<close> is the numbering by
  occurrence along the elements it encounters: nested elements reached through
  expressions are part of the sequence, the counters are never reset, and each counter is
  advanced before the record that carries it is built. So, with \<open>ts\<close> the tags of the
  vocabulary among the encountered elements, in order, the k-th record of the stack has
  the display identifier \<open>A.n\<close> where \<open>n\<close> is the number of occurrences of the k-th tag
  among the first k + 1. This is the stack before the filter: records dropped later for
  an empty value have taken their number.
\<close>
theorem displayId_nth_occurrence:
  "article_stack A attrs nodes = records A Map.empty (encountered_list attrs nodes) \<and>
   map displayId (article_stack A attrs nodes) =
     (let ts = filter (\<lambda>t. t \<in> Tags) (map tag_of (encountered_list attrs nodes))
      in map (\<lambda>k. displayId_string A (count_list (take (Suc k) ts) (ts ! k)))
           [0..<length ts])"
  by (simp add: article_stack_records displayId_records ids_closed_form [of A Map.empty]
      cnt_def Let_def)

theorem displayId_nth_occurrence_witness:
  "map displayId
     (article_stack 2 Map.empty
        [Element ''e'' [''name'' \<mapsto> ''a''] [Element ''E'' [''value'' \<mapsto> ''b''] []],
         Text ''  '',
         Element ''foo'' Map.empty [Element ''p'' Map.empty [Text ''skipped'']],
         Element ''p'' Map.empty [Text ''Hello''],
         Element ''e'' [''value'' \<mapsto> ''v''] [],
         Element ''p'' Map.empty []]) =
   [''2.1'', ''2.2'', ''2.1'', ''2.3'', ''2.2'']"
proof -
  let ?nodes = "[Element ''e'' [''name'' \<mapsto> ''a''] [Element ''E'' [''value'' \<mapsto> ''b''] []],
         Text ''  '',
         Element ''foo'' Map.empty [Element ''p'' Map.empty [Text ''skipped'']],
         Element ''p'' Map.empty [Text ''Hello''],
         Element ''e'' [''value'' \<mapsto> ''v''] [],
         Element ''p'' Map.empty []]"
  have "map displayId (article_stack 2 Map.empty ?nodes) =
     (let ts = filter (\<lambda>t. t \<in> Tags) (map tag_of (encountered_list Map.empty ?nodes))
      in map (\<lambda>k. displayId_string 2 (count_list (take (Suc k) ts) (ts ! k)))
           [0..<length ts])"
    using displayId_nth_occurrence [of 2 Map.empty ?nodes] by (rule conjunct2)
  also have "\<dots> = [''2.1'', ''2.2'', ''2.1'', ''2.3'', ''2.2'']"
    by code_simp
  finally show ?thesis .
qed


section \<open>A nested expression\<close>

lemma lower_e: "toLowerCase ''e'' = ''e''"
  by code_simp

lemma lower_def: "toLowerCase ''def'' = ''def''"
  by code_simp

lemma displayId_string_1_1: "displayId_string 1 1 = ''1.1''"
  by code_simp

lemma displayId_string_1_2: "displayId_string 1 2 = ''1.2''"
  by code_simp

lemma cnt_empty: "cnt Map.empty t = 0"
  by (simp add: cnt_def)

text \<open>
  C2, as the code has it. In the article of ordinal 1 whose content is an expression
  named Euro around an expression named Sub, the walk builds two input/text records,
  the outer one with display identifier 1.1 and the nested one with 1.2: the counter is
  shared across the nesting. The content of the article is what the filter keeps of the
  two, namely each record whose expression has a non-empty \<open>value\<close> attribute.
\<close>
theorem nested_expression_ids:
  assumes "a1 ''name'' = Some ''Euro''" and "a2 ''name'' = Some ''Sub''"
  shows "\<exists>issue.
     fst (parse h (Document [Element ''issue'' ra [Element ''article'' aa
            [Element ''e'' a1 [Element ''e'' a2 []]]]])) = Inr issue \<and>
     map content (articles issue) =
       [filter (\<lambda>c. truthy (value_c c))
          [\<lparr>displayId = ''1.1'', display = I_TEXT,
            value_c = fromAttributes ''value'' [a1],
            props = [(''rel'', fromAttributes ''rel'' [a1]), (''ref'', Some ''Euro''),
                     (''type'', fromAttributes ''type'' [a1])]\<rparr>,
           \<lparr>displayId = ''1.2'', display = I_TEXT,
            value_c = fromAttributes ''value'' [a2],
            props = [(''rel'', fromAttributes ''rel'' [a2]), (''ref'', Some ''Sub''),
                     (''type'', fromAttributes ''type'' [a2])]\<rparr>]]"
proof -
  let ?xml = "Document [Element ''issue'' ra [Element ''article'' aa
            [Element ''e'' a1 [Element ''e'' a2 []]]]]"
  have root: "firstElementChild ?xml = Some (Element ''issue'' ra [Element ''article'' aa
            [Element ''e'' a1 [Element ''e'' a2 []]]])"
    by simp
  have els: "getElementsByTagName ?xml ''article'' =
      [Element ''article'' aa [Element ''e'' a1 [Element ''e'' a2 []]]]"
    by simp
  have two: "Suc (Suc 0) = 2" by simp
  have names: "fromAttributes ''name'' [a1] = Some ''Euro''"
    "fromAttributes ''name'' [a2] = Some ''Sub''"
    using assms by simp_all
  have st: "article_stack (Suc 0) aa [Element ''e'' a1 [Element ''e'' a2 []]] =
          [\<lparr>displayId = ''1.1'', display = I_TEXT,
            value_c = fromAttributes ''value'' [a1],
            props = [(''rel'', fromAttributes ''rel'' [a1]), (''ref'', Some ''Euro''),
                     (''type'', fromAttributes ''type'' [a1])]\<rparr>,
           \<lparr>displayId = ''1.2'', display = I_TEXT,
            value_c = fromAttributes ''value'' [a2],
            props = [(''rel'', fromAttributes ''rel'' [a2]), (''ref'', Some ''Sub''),
                     (''type'', fromAttributes ''type'' [a2])]\<rparr>]"
    using displayId_string_1_1 displayId_string_1_2
    by (simp add: article_stack_records lower_e built_def cnt_bump cnt_empty two names
        del: fromAttributes.simps)
  show ?thesis
    unfolding parse_result [OF root]
    by (simp add: articles_of_def els st del: getElementsByTagName.simps fromAttributes.simps)
qed

theorem nested_expression_ids_witness:
  "\<exists>issue.
     fst (parse empty_heap (Document [Element ''issue'' Map.empty [Element ''article'' Map.empty
            [Element ''e'' [''name'' \<mapsto> ''Euro'', ''value'' \<mapsto> ''1 RON = ? EUR'']
               [Element ''e'' [''name'' \<mapsto> ''Sub'', ''value'' \<mapsto> ''Euro''] []]]]])) = Inr issue \<and>
     map content (articles issue) =
       [[\<lparr>displayId = ''1.1'', display = I_TEXT, value_c = Some ''1 RON = ? EUR'',
          props = [(''rel'', None), (''ref'', Some ''Euro''), (''type'', None)]\<rparr>,
         \<lparr>displayId = ''1.2'', display = I_TEXT, value_c = Some ''Euro'',
          props = [(''rel'', None), (''ref'', Some ''Sub''), (''type'', None)]\<rparr>]]"
  using nested_expression_ids [of "[''name'' \<mapsto> ''Euro'', ''value'' \<mapsto> ''1 RON = ? EUR'']"
      "[''name'' \<mapsto> ''Sub'', ''value'' \<mapsto> ''Euro'']" empty_heap Map.empty Map.empty]
  by (simp add: truthy_def del: parse.simps)

text \<open>
  With the two expressions carrying their names only, both records have no value and
  the content of the article is empty.
\<close>

theorem nested_expression_bare_counterexample:
  "fst (parse empty_heap doc_nested_bare) =
     Inr \<lparr>terminology = [], articles = [\<lparr>title = None, content = []\<rparr>],
          language = None, currency = None, version = None\<rparr>"
  by code_simp


section \<open>Terminology\<close>

lemma elements_named_filter:
  "elements_named nm n = filter (named nm) (all_elements n)"
  "elements_named_list nm ns = filter (named nm) (all_elements_list ns)"
  by (induction nm n and nm ns rule: elements_named_elements_named_list.induct) auto

lemma getElementsByTagName_filter:
  "getElementsByTagName xml nm = filter (named nm) (document_elements xml)"
  by (cases xml) (simp add: elements_named_filter)

lemma all_elements_closed:
  "Element t a cs \<in> set (all_elements n) \<Longrightarrow> e \<in> set (all_elements_list cs) \<Longrightarrow>
     e \<in> set (all_elements n)"
  "Element t a cs \<in> set (all_elements_list ns) \<Longrightarrow> e \<in> set (all_elements_list cs) \<Longrightarrow>
     e \<in> set (all_elements_list ns)"
  by (induction n and ns rule: all_elements_all_elements_list.induct) auto

lemma encountered_elements:
  "(t, a, cs, pa) \<in> set (encountered pa0 n) \<Longrightarrow> Element t a cs \<in> set (all_elements n)"
  "(t, a, cs, pa) \<in> set (encountered_list pa0 ns) \<Longrightarrow>
     Element t a cs \<in> set (all_elements_list ns)"
  by (induction pa0 n and pa0 ns rule: encountered_encountered_list.induct)
    (auto split: if_splits)

lemma records_definition:
  assumes "(''def'', a, cs, pa) \<in> set es"
  shows "\<exists>r \<in> set (records idx c es).
           display r = I_TEXT \<and> field r ''def'' = Some ''local'' \<and>
           field r ''ref'' = fromAttributes ''name'' [a] \<and>
           value_c r = (if trim (textContent cs) \<noteq> [] then Some (trim (textContent cs))
                        else fromAttributes ''value'' [a])"
  using assms
proof (induction es arbitrary: c)
  case Nil
  then show ?case by simp
next
  case (Cons e es)
  obtain t' a' cs' pa' where e: "e = (t', a', cs', pa')" by (cases e)
  show ?case
  proof (cases "e = (''def'', a, cs, pa)")
    case True
    then show ?thesis
      by (simp add: lower_def built_def field_def del: fromAttributes.simps)
  next
    case False
    with Cons.prems have "(''def'', a, cs, pa) \<in> set es" by simp
    from Cons.IH [OF this, of "bump c (toLowerCase t')"] show ?thesis
      by (auto simp: e simp del: fromAttributes.simps)
  qed
qed

text \<open>
  C6, as the code has it. The terminology of the issue lists every element named
  \<open>def\<close> of the whole document, at any depth and in document order, each entry built
  from the \<open>name\<close> and \<open>value\<close> attributes alone; no counter enters it. So a
  definition outside any article has its entry. A definition inside an article has its
  entry too, and it has a content record in that article when the walk of the article
  encounters it (it is a child of the article, or nested under expressions only) and its
  content value, the trimmed text or else the \<open>value\<close> attribute, is non-empty.
  (The terminology pass matches the tag name \<open>def\<close> as written, the walk matches it
  lower-cased; the statement is about elements named \<open>def\<close>.)
\<close>
theorem terminology_and_content:
  assumes "fst (parse h xml) = Inr issue"
  shows "terminology issue = map terminology_of (filter (named ''def'') (document_elements xml)) \<and>
    (\<forall>a cs. Element ''def'' a cs \<in> set (document_elements xml) \<longrightarrow>
       \<lparr>name = fromAttributes ''name'' [a], value_t = fromAttributes ''value'' [a]\<rparr>
         \<in> set (terminology issue)) \<and>
    (\<forall>k t aa acs a cs pa.
       k < length (getElementsByTagName xml ''article'') \<and>
       getElementsByTagName xml ''article'' ! k = Element t aa acs \<and>
       (''def'', a, cs, pa) \<in> set (encountered_list aa acs) \<and>
       (trim (textContent cs) \<noteq> [] \<or> truthy (a ''value'')) \<longrightarrow>
       \<lparr>name = fromAttributes ''name'' [a], value_t = fromAttributes ''value'' [a]\<rparr>
         \<in> set (terminology issue) \<and>
       (\<exists>r \<in> set (content (articles issue ! k)).
          display r = I_TEXT \<and> field r ''def'' = Some ''local'' \<and>
          field r ''ref'' = fromAttributes ''name'' [a] \<and>
          value_c r = (if trim (textContent cs) \<noteq> [] then Some (trim (textContent cs))
                       else fromAttributes ''value'' [a])))"
proof -
  from assms obtain rt ra rcs where root: "firstElementChild xml = Some (Element rt ra rcs)"
    by (rule parse_Inr_cases)
  have arts: "articles issue = articles_of xml"
    and terms: "terminology issue = map terminology_of (getElementsByTagName xml ''def'')"
    using assms parse_result [OF root, of h] by auto
  have one: "terminology issue = map terminology_of (filter (named ''def'') (document_elements xml))"
    by (simp add: terms getElementsByTagName_filter)
  have two: "\<lparr>name = fromAttributes ''name'' [a], value_t = fromAttributes ''value'' [a]\<rparr>
         \<in> set (terminology issue)"
    if "Element ''def'' a cs \<in> set (document_elements xml)" for a cs
  proof -
    from that have "Element ''def'' a cs \<in> set (filter (named ''def'') (document_elements xml))"
      by simp
    then have "terminology_of (Element ''def'' a cs) \<in> set (terminology issue)"
      unfolding one set_map by (rule imageI)
    then show ?thesis by simp
  qed
  have three: "\<lparr>name = fromAttributes ''name'' [a], value_t = fromAttributes ''value'' [a]\<rparr>
         \<in> set (terminology issue) \<and>
       (\<exists>r \<in> set (content (articles issue ! k)).
          display r = I_TEXT \<and> field r ''def'' = Some ''local'' \<and>
          field r ''ref'' = fromAttributes ''name'' [a] \<and>
          value_c r = (if trim (textContent cs) \<noteq> [] then Some (trim (textContent cs))
                       else fromAttributes ''value'' [a]))"
    if k: "k < length (getElementsByTagName xml ''article'')"
      and el: "getElementsByTagName xml ''article'' ! k = Element t aa acs"
      and enc: "(''def'', a, cs, pa) \<in> set (encountered_list aa acs)"
      and val: "trim (textContent cs) \<noteq> [] \<or> truthy (a ''value'')"
    for k t aa acs a cs pa
  proof -
    have "Element t aa acs \<in> set (getElementsByTagName xml ''article'')"
      using k el nth_mem by metis
    then have art: "Element t aa acs \<in> set (document_elements xml)"
      by (auto simp: getElementsByTagName_filter)
    have "Element ''def'' a cs \<in> set (all_elements_list acs)"
      using enc by (rule encountered_elements(2))
    with art have "Element ''def'' a cs \<in> set (document_elements xml)"
      by (cases xml) (auto intro: all_elements_closed(2))
    then have tment: "\<lparr>name = fromAttributes ''name'' [a], value_t = fromAttributes ''value'' [a]\<rparr>
         \<in> set (terminology issue)"
      by (rule two)
    from records_definition [OF enc, of "Suc k" Map.empty]
    obtain r where r: "r \<in> set (records (Suc k) Map.empty (encountered_list aa acs))"
      "display r = I_TEXT" "field r ''def'' = Some ''local''"
      "field r ''ref'' = fromAttributes ''name'' [a]"
      "value_c r = (if trim (textContent cs) \<noteq> [] then Some (trim (textContent cs))
                       else fromAttributes ''value'' [a])"
      by blast
    have "truthy (value_c r)"
      using val r(5) by (auto simp: truthy_def split: option.splits)
    with r(1) have "r \<in> set (content (articles issue ! k))"
      by (simp add: arts articles_of_nth [OF k] el article_stack_records)
    with tment r show ?thesis by blast
  qed
  from one two three show ?thesis by blast
qed

text \<open>
  A definition inside a paragraph of an article: it has its terminology entry, and the
  content of the article is the paragraph alone, since the walk does not descend into a
  paragraph.
\<close>

theorem definition_in_paragraph_counterexample:
  "fst (parse empty_heap doc_def_in_paragraph) =
     Inr \<lparr>terminology = [\<lparr>name = Some ''a'', value_t = Some ''1''\<rparr>],
          articles = [\<lparr>title = None,
                       content = [\<lparr>displayId = ''1.1'', display = P_TEXT,
                                   value_c = Some ''see'', props = []\<rparr>]\<rparr>],
          language = None, currency = None, version = None\<rparr>"
  by code_simp

theorem terminology_and_content_witness:
  "\<exists>issue. fst (parse empty_heap doc_definitions) = Inr issue \<and>
     terminology issue = [\<lparr>name = Some ''g'', value_t = Some ''1''\<rparr>,
                          \<lparr>name = Some ''Euro'', value_t = Some ''attr''\<rparr>] \<and>
     \<lparr>name = Some ''g'', value_t = Some ''1''\<rparr> \<in> set (terminology issue) \<and>
     \<lparr>name = Some ''Euro'', value_t = Some ''attr''\<rparr> \<in> set (terminology issue) \<and>
     (\<exists>r \<in> set (content (articles issue ! 0)).
        display r = I_TEXT \<and> field r ''def'' = Some ''local'' \<and>
        field r ''ref'' = Some ''Euro'' \<and> value_c r = Some ''1 RON = ? EUR'')"
proof -
  let ?issue = "\<lparr>terminology = [\<lparr>name = Some ''g'', value_t = Some ''1''\<rparr>,
                          \<lparr>name = Some ''Euro'', value_t = Some ''attr''\<rparr>],
      articles = [\<lparr>title = Some ''T'',
                   content = [\<lparr>displayId = ''1.1'', display = I_TEXT,
                               value_c = Some ''1 RON = ? EUR'',
                               props = [(''def'', Some ''local''), (''ref'', Some ''Euro''),
                                        (''type'', None)]\<rparr>]\<rparr>],
      language = None, currency = None, version = None\<rparr>"
  let ?a = "[''name'' \<mapsto> ''Euro'', ''value'' \<mapsto> ''attr'']"
  let ?cs = "[Text '' 1 RON = ? EUR '']"
  have run: "fst (parse empty_heap doc_definitions) = Inr ?issue"
    by code_simp
  note T = terminology_and_content [OF run]
  have outside: "Element ''def'' [''name'' \<mapsto> ''g'', ''value'' \<mapsto> ''1''] []
      \<in> set (document_elements doc_definitions)"
    by (simp add: doc_definitions_def)
  have tr: "trim (textContent ?cs) = ''1 RON = ? EUR''" by code_simp
  have hyps: "0 < length (getElementsByTagName doc_definitions ''article'') \<and>
       getElementsByTagName doc_definitions ''article'' ! 0 =
         Element ''article'' [''title'' \<mapsto> ''T''] [Element ''def'' ?a ?cs] \<and>
       (''def'', ?a, ?cs, [''title'' \<mapsto> ''T''])
         \<in> set (encountered_list [''title'' \<mapsto> ''T''] [Element ''def'' ?a ?cs]) \<and>
       (trim (textContent ?cs) \<noteq> [] \<or> truthy (?a ''value''))"
    by (simp add: doc_definitions_def tr lower_def del: textContent.simps)
  from T outside
  have g: "\<lparr>name = fromAttributes ''name'' [[''name'' \<mapsto> ''g'', ''value'' \<mapsto> ''1'']],
            value_t = fromAttributes ''value'' [[''name'' \<mapsto> ''g'', ''value'' \<mapsto> ''1'']]\<rparr>
         \<in> set (terminology ?issue)"
    by blast
  from T hyps
  have e: "\<lparr>name = fromAttributes ''name'' [?a], value_t = fromAttributes ''value'' [?a]\<rparr>
         \<in> set (terminology ?issue) \<and>
       (\<exists>r \<in> set (content (articles ?issue ! 0)).
          display r = I_TEXT \<and> field r ''def'' = Some ''local'' \<and>
          field r ''ref'' = fromAttributes ''name'' [?a] \<and>
          value_c r = (if trim (textContent ?cs) \<noteq> [] then Some (trim (textContent ?cs))
                       else fromAttributes ''value'' [?a]))"
    by blast
  show ?thesis
    using run g e by (intro exI [of _ ?issue]) (simp add: tr del: textContent.simps)
qed

lemma named_elements:
  "Element t a cs \<in> set (getElementsByTagName xml nm) \<Longrightarrow> t = nm"
  by (simp add: getElementsByTagName_filter)

section \<open>Terminology value against content value\<close>

text \<open>
  C10. For a definition element with non-empty trimmed text content and a \<open>value\<close>
  attribute, the terminology entry takes its value from the attribute alone (absent when
  the attribute is the empty string), never from the text, while the content record of
  the same element takes the trimmed text; the two values differ whenever the trimmed
  text differs from the attribute.
\<close>
theorem terminology_value_from_attribute:
  assumes "fst (parse h xml) = Inr issue"
    and "k < length (getElementsByTagName xml ''def'')"
    and "getElementsByTagName xml ''def'' ! k = Element t a cs"
    and "trim (textContent cs) \<noteq> []"
    and "a ''value'' = Some v"
  shows "value_t (terminology issue ! k) = (if v = [] then None else Some v) \<and>
    (\<exists>r. stack (push (Element t a cs) pa ctx idx) = stack ctx @ [r] \<and>
         value_c r = Some (trim (textContent cs)) \<and>
         (trim (textContent cs) \<noteq> v \<longrightarrow> value_t (terminology issue ! k) \<noteq> value_c r))"
proof -
  from assms(1) obtain rt ra rcs where root: "firstElementChild xml = Some (Element rt ra rcs)"
    by (rule parse_Inr_cases)
  have "terminology issue = map terminology_of (getElementsByTagName xml ''def'')"
    using assms(1) parse_result [OF root, of h] by auto
  then have entry: "terminology issue ! k = terminology_of (Element t a cs)"
    using assms(2,3) by simp
  have val: "value_t (terminology issue ! k) = (if v = [] then None else Some v)"
    using assms(5) by (simp add: entry)
  have "Element t a cs \<in> set (getElementsByTagName xml ''def'')"
    using assms(2,3) nth_mem by metis
  then have t: "t = ''def''" by (rule named_elements)
  have "push (Element t a cs) pa ctx idx =
     \<lparr>stack = stack ctx @
        built ''def'' a pa (trim (textContent cs))
          (displayId_string idx (cnt (count ctx) ''def'' + 1)),
      count = bump (count ctx) ''def''\<rparr>"
    using push_not_expression [of t a cs pa ctx idx] by (simp add: t lower_def del: push.simps)
  then show ?thesis
    using assms(4) val by (auto simp: built_def simp del: push.simps)
qed

theorem terminology_value_from_attribute_witness:
  "\<exists>issue. fst (parse empty_heap doc_definitions) = Inr issue \<and>
     value_t (terminology issue ! 1) = Some ''attr'' \<and>
     (\<exists>r. stack (push (Element ''def'' [''name'' \<mapsto> ''Euro'', ''value'' \<mapsto> ''attr'']
                         [Text '' 1 RON = ? EUR ''])
                   [''title'' \<mapsto> ''T''] \<lparr>stack = [], count = Map.empty\<rparr> 1) = [] @ [r] \<and>
          value_c r = Some ''1 RON = ? EUR'' \<and>
          value_t (terminology issue ! 1) \<noteq> value_c r)"
proof -
  let ?issue = "\<lparr>terminology = [\<lparr>name = Some ''g'', value_t = Some ''1''\<rparr>,
                          \<lparr>name = Some ''Euro'', value_t = Some ''attr''\<rparr>],
      articles = [\<lparr>title = Some ''T'',
                   content = [\<lparr>displayId = ''1.1'', display = I_TEXT,
                               value_c = Some ''1 RON = ? EUR'',
                               props = [(''def'', Some ''local''), (''ref'', Some ''Euro''),
                                        (''type'', None)]\<rparr>]\<rparr>],
      language = None, currency = None, version = None\<rparr>"
  let ?a = "[''name'' \<mapsto> ''Euro'', ''value'' \<mapsto> ''attr'']"
  let ?cs = "[Text '' 1 RON = ? EUR '']"
  have run: "fst (parse empty_heap doc_definitions) = Inr ?issue"
    by code_simp
  have k: "1 < length (getElementsByTagName doc_definitions ''def'')"
    and el: "getElementsByTagName doc_definitions ''def'' ! 1 = Element ''def'' ?a ?cs"
    by (simp_all add: doc_definitions_def)
  have tr: "trim (textContent ?cs) = ''1 RON = ? EUR''" by code_simp
  then have ne: "trim (textContent ?cs) \<noteq> []" by simp
  have v: "?a ''value'' = Some ''attr''" by simp
  note T = terminology_value_from_attribute [of empty_heap doc_definitions ?issue 1 "''def''"
      ?a ?cs "''attr''" "[''title'' \<mapsto> ''T'']" "\<lparr>stack = [], count = Map.empty\<rparr>" 1,
      OF run k el ne v]
  from T have val: "value_t (terminology ?issue ! 1) = Some ''attr''"
    by simp
  from T obtain r where r: "stack (push (Element ''def'' ?a ?cs) [''title'' \<mapsto> ''T'']
        \<lparr>stack = [], count = Map.empty\<rparr> 1) = stack \<lparr>stack = [], count = Map.empty\<rparr> @ [r]"
      "value_c r = Some (trim (textContent ?cs))"
      "trim (textContent ?cs) \<noteq> ''attr'' \<longrightarrow> value_t (terminology ?issue ! 1) \<noteq> value_c r"
    by blast
  have "stack (push (Element ''def'' ?a ?cs) [''title'' \<mapsto> ''T'']
        \<lparr>stack = [], count = Map.empty\<rparr> 1) = [] @ [r]"
    using r(1) by (simp del: push.simps)
  moreover have "value_c r = Some ''1 RON = ? EUR''"
    using r(2) tr by simp
  moreover have "value_t (terminology ?issue ! 1) \<noteq> value_c r"
    using r(3) tr by simp
  ultimately show ?thesis
    using run val by blast
qed


section \<open>Kept content\<close>

text \<open>
  C8. When the transform returns an issue, every content record of every article of it
  has a value that is a non-empty string, and the content of the article built from the
  k-th article element is the stack of its walk with the records of falsy value
  (absent or empty) filtered out.
\<close>

theorem kept_content_has_value:
  assumes "fst (parse h xml) = Inr issue"
  shows "(\<forall>a \<in> set (articles issue). \<forall>c \<in> set (content a).
            \<exists>v. value_c c = Some v \<and> v \<noteq> []) \<and>
         (\<forall>k < length (getElementsByTagName xml ''article''). \<forall>t a cs.
            getElementsByTagName xml ''article'' ! k = Element t a cs \<longrightarrow>
            content (articles issue ! k) =
              filter (\<lambda>c. truthy (value_c c)) (article_stack (k + 1) a cs))"
proof -
  from assms obtain t a cs where root: "firstElementChild xml = Some (Element t a cs)"
    by (rule parse_Inr_cases)
  have arts: "articles issue = articles_of xml"
    using assms parse_result [OF root, of h] by auto
  have "\<exists>v. value_c c = Some v \<and> v \<noteq> []" if "a \<in> set (articles issue)" "c \<in> set (content a)" for a c
    using articles_of_truthy [of a xml c] that arts
    by (auto simp: truthy_def split: option.splits)
  moreover have "content (articles issue ! k) =
      filter (\<lambda>c. truthy (value_c c)) (article_stack (k + 1) a' cs')"
    if "k < length (getElementsByTagName xml ''article'')"
      "getElementsByTagName xml ''article'' ! k = Element t' a' cs'" for k t' a' cs'
    using that by (simp add: arts articles_of_nth)
  ultimately show ?thesis by blast
qed

theorem kept_content_has_value_witness:
  "fst (parse empty_heap doc_paragraphs) =
     Inr \<lparr>terminology = [],
          articles = [\<lparr>title = Some ''A'',
                       content = [\<lparr>displayId = ''1.1'', display = P_TEXT,
                                   value_c = Some ''Hello'', props = []\<rparr>]\<rparr>],
          language = Some ''ro-RO'', currency = None, version = Some ''1.0''\<rparr> \<and>
   (\<exists>v. value_c \<lparr>displayId = ''1.1'', display = P_TEXT,
                   value_c = Some ''Hello'', props = []\<rparr> = Some v \<and> v \<noteq> []) \<and>
   content \<lparr>title = Some ''A'',
            content = [\<lparr>displayId = ''1.1'', display = P_TEXT,
                        value_c = Some ''Hello'', props = []\<rparr>]\<rparr> =
     filter (\<lambda>c. truthy (value_c c))
       (article_stack 1 [''title'' \<mapsto> ''A'']
          [Element ''p'' Map.empty [Text ''Hello''], Text '' '', Element ''p'' Map.empty []])"
proof -
  have run: "fst (parse empty_heap doc_paragraphs) =
     Inr \<lparr>terminology = [],
          articles = [\<lparr>title = Some ''A'',
                       content = [\<lparr>displayId = ''1.1'', display = P_TEXT,
                                   value_c = Some ''Hello'', props = []\<rparr>]\<rparr>],
          language = Some ''ro-RO'', currency = None, version = Some ''1.0''\<rparr>"
    by code_simp
  have els: "getElementsByTagName doc_paragraphs ''article'' =
      [Element ''article'' [''title'' \<mapsto> ''A'']
         [Element ''p'' Map.empty [Text ''Hello''], Text '' '', Element ''p'' Map.empty []]]"
    by (simp add: doc_paragraphs_def)
  show ?thesis
    using kept_content_has_value [OF run] run els by simp
qed

section \<open>Collections without deduplication\<close>

text \<open>
  C7. The two sets compare objects by identity and every entry is a fresh object, so no
  entry is ever dropped: the issue has one article per article element and one
  terminology entry per definition element, the k-th entry built from the k-th element
  in document order, whether or not an entry equal in content came before.
\<close>

theorem collections_keep_every_entry:
  assumes "fst (parse h xml) = Inr issue"
  shows "length (articles issue) = length (getElementsByTagName xml ''article'') \<and>
         length (terminology issue) = length (getElementsByTagName xml ''def'') \<and>
         (\<forall>k < length (getElementsByTagName xml ''article'').
            articles issue ! k = article_of (k + 1) (getElementsByTagName xml ''article'' ! k)) \<and>
         (\<forall>k < length (getElementsByTagName xml ''def'').
            terminology issue ! k = terminology_of (getElementsByTagName xml ''def'' ! k))"
proof -
  from assms obtain t a cs where root: "firstElementChild xml = Some (Element t a cs)"
    by (rule parse_Inr_cases)
  have "articles issue = articles_of xml"
    and "terminology issue = map terminology_of (getElementsByTagName xml ''def'')"
    using assms parse_result [OF root, of h] by auto
  then show ?thesis
    by (simp add: length_articles_of articles_of_nth)
qed

theorem collections_keep_every_entry_witness:
  "fst (parse empty_heap doc_duplicates) =
     Inr \<lparr>terminology = [\<lparr>name = Some ''n'', value_t = Some ''v''\<rparr>,
                          \<lparr>name = Some ''n'', value_t = Some ''v''\<rparr>],
          articles = [\<lparr>title = Some ''A'', content = []\<rparr>,
                      \<lparr>title = Some ''A'', content = []\<rparr>],
          language = None, currency = None, version = None\<rparr> \<and>
   length (getElementsByTagName doc_duplicates ''article'') = 2 \<and>
   length (getElementsByTagName doc_duplicates ''def'') = 2 \<and>
   length [\<lparr>title = Some ''A'', content = []\<rparr>, \<lparr>title = Some ''A'', content = []\<rparr>] =
     length (getElementsByTagName doc_duplicates ''article'') \<and>
   length [\<lparr>name = Some ''n'', value_t = Some ''v''\<rparr>,
           \<lparr>name = Some ''n'', value_t = Some ''v''\<rparr>] =
     length (getElementsByTagName doc_duplicates ''def'')"
proof -
  have run: "fst (parse empty_heap doc_duplicates) =
     Inr \<lparr>terminology = [\<lparr>name = Some ''n'', value_t = Some ''v''\<rparr>,
                          \<lparr>name = Some ''n'', value_t = Some ''v''\<rparr>],
          articles = [\<lparr>title = Some ''A'', content = []\<rparr>,
                      \<lparr>title = Some ''A'', content = []\<rparr>],
          language = None, currency = None, version = None\<rparr>"
    by code_simp
  have "length (getElementsByTagName doc_duplicates ''article'') = 2"
    and "length (getElementsByTagName doc_duplicates ''def'') = 2"
    by (simp_all add: doc_duplicates_def)
  then show ?thesis
    using collections_keep_every_entry [OF run] run by simp
qed

section \<open>No state between runs\<close>

text \<open>
  C9. The issue the transform returns for a document tree does not depend on the heap it
  runs in: two runs on the same tree, in any two heaps, return the same result field for
  field, and so does a second run in the heap the first one left behind.
\<close>

theorem parse_deterministic:
  "fst (parse h1 xml) = fst (parse h2 xml) \<and>
   fst (parse (snd (parse h1 xml)) xml) = fst (parse h1 xml)"
proof -
  have "fst (parse h xml) = fst (parse h' xml)" for h h'
  proof (cases "\<exists>t a cs. firstElementChild xml = Some (Element t a cs)")
    case True
    then show ?thesis using parse_result by fastforce
  next
    case False
    then show ?thesis using parse_error by simp
  qed
  then show ?thesis by blast
qed

theorem parse_deterministic_witness:
  "fst (parse empty_heap doc_paragraphs) = fst (parse used_heap doc_paragraphs) \<and>
   fst (parse (snd (parse empty_heap doc_paragraphs)) doc_paragraphs) =
     fst (parse empty_heap doc_paragraphs) \<and>
   snd (parse empty_heap doc_paragraphs) \<noteq> empty_heap"
proof -
  have "snd (parse empty_heap doc_paragraphs) \<noteq> empty_heap"
    by code_simp
  then show ?thesis
    using parse_deterministic [of empty_heap doc_paragraphs used_heap] by simp
qed

end
